theory Spec2Isabelle
  imports Main "HOL-Library.Char_ord"
begin

section \<open>Violation records\<close>

text \<open>
  The \<^verbatim>\<open>DataRow\<close> interface of the test suites, which is also the shape of a row
  that \<^verbatim>\<open>XLSX.utils.sheet_to_json\<close> gives back in \<^verbatim>\<open>combine-sheets.js\<close>. A field
  that may be \<^verbatim>\<open>undefined\<close> (an empty cell is a key that is absent from the row object)
  is an \<open>option\<close>; \<open>None\<close> is the absent value. The fields \<^verbatim>\<open>id\<close> and
  \<^verbatim>\<open>help\<close> are written \<open>id'\<close> and \<open>help'\<close>.
\<close>

record DataRow =
  page :: string
  device :: string
  id' :: string
  impact :: "string option"
  tags :: string
  description :: string
  help' :: string
  helpUrl :: string
  html :: string
  target :: "string option"
  failureSummary :: "string option"

section \<open>The test suites: one page visit\<close>

text \<open>
  What \<^verbatim>\<open>axeScanner.analyze()\<close> returns, as far as the suites read it: the list
  \<^verbatim>\<open>violations\<close>, each entry with its \<^verbatim>\<open>nodes\<close>. \<^verbatim>\<open>Object.entries\<close> of that
  array pairs every entry with its position, in order, and the suites read only the second
  component \<^verbatim>\<open>element[1]\<close>.
\<close>

record axeNode =
  nodeHtml :: string
  nodeTarget :: "string list"
  nodeFailureSummary :: "string option"

record axeViolation =
  violationId :: string
  violationImpact :: "string option"
  violationTags :: "string list"
  violationDescription :: string
  violationHelp :: string
  violationHelpUrl :: string
  nodes :: "axeNode list"

text \<open>\<^verbatim>\<open>Array.prototype.join(", ")\<close>.\<close>

fun joinComma :: "string list \<Rightarrow> string" where
  "joinComma [] = []"
| "joinComma [x] = x"
| "joinComma (x # y # rest) = x @ '', '' @ joinComma (y # rest)"

text \<open>The object literal \<^verbatim>\<open>dataRow\<close> built for one node of one violation.\<close>

definition dataRow :: "string \<Rightarrow> string \<Rightarrow> axeViolation \<Rightarrow> axeNode \<Rightarrow> DataRow" where
  "dataRow slug userAgent element node =
     \<lparr>page = slug, device = userAgent, id' = violationId element,
      impact = violationImpact element, tags = joinComma (violationTags element),
      description = violationDescription element, help' = violationHelp element,
      helpUrl = violationHelpUrl element, html = nodeHtml node,
      target = Some (joinComma (nodeTarget node)),
      failureSummary = nodeFailureSummary node\<rparr>"

text \<open>
  The nested \<^verbatim>\<open>forEach\<close> of \<^verbatim>\<open>ada.test.ts\<close> and \<^verbatim>\<open>tfg.test.ts\<close>: every node of every
  violation is pushed onto \<^verbatim>\<open>sheetData\<close>, whatever that array held before.
\<close>

definition pushRows :: "string \<Rightarrow> string \<Rightarrow> axeViolation list \<Rightarrow> DataRow list \<Rightarrow> DataRow list" where
  "pushRows slug userAgent violations sheetData =
     fold (\<lambda>element acc. fold (\<lambda>node acc'. acc' @ [dataRow slug userAgent element node])
                              (nodes element) acc)
          violations sheetData"

text \<open>
  The result of one test body: the value of the accumulator after it, the files written
  (path and rows, in the order of the writes) and whether
  \<^verbatim>\<open>expect(accessibilityScanResults.violations).toEqual([])\<close> holds.
\<close>

record visitResult =
  accumulator :: "DataRow list"
  written :: "(string \<times> DataRow list) list"
  passed :: bool

subsection \<open>ada.test.ts\<close>

text \<open>
  \<^verbatim>\<open>sheetWriter(slug)\<close> of \<^verbatim>\<open>ada.test.ts\<close> writes the module-level array
  \<^verbatim>\<open>sheetData\<close> to \<^verbatim>\<open>`spreadsheets/${slug}.xlsx`\<close>; the slug is used as it is.
\<close>

definition adaSheetWriter :: "string \<Rightarrow> DataRow list \<Rightarrow> string \<times> DataRow list" where
  "adaSheetWriter slug sheetData = (''spreadsheets/'' @ slug @ ''.xlsx'', sheetData)"

text \<open>
  The test body of \<^verbatim>\<open>ada.test.ts\<close>. \<^verbatim>\<open>sheetData\<close> is declared once for the module
  (\<^verbatim>\<open>let sheetData: DataRow[] = []\<close> outside the loop), so the body starts from the
  value the module holds and leaves its new value behind: it is passed in and returned.
  \<^verbatim>\<open>slug || "home"\<close> is \<^verbatim>\<open>"home"\<close> for the empty slug.
\<close>

definition adaVisit :: "string \<Rightarrow> string \<Rightarrow> axeViolation list \<Rightarrow> DataRow list \<Rightarrow> visitResult" where
  "adaVisit slug userAgent violations sheetData =
     (let sheetData' = pushRows slug userAgent violations sheetData in
      \<lparr>accumulator = sheetData',
       written = (if length sheetData' > 0
                  then [adaSheetWriter (if slug = [] then ''home'' else slug) sheetData']
                  else []),
       passed = (violations = [])\<rparr>)"

subsection \<open>tfg.test.ts\<close>

text \<open>
  The characters that \<^verbatim>\<open>/[^a-z0-9]/gi\<close> leaves alone. Without the \<^verbatim>\<open>u\<close> flag the
  \<^verbatim>\<open>i\<close> flag folds case within ASCII only, so these are the ASCII letters and digits.
\<close>

definition isAlphaNum :: "char \<Rightarrow> bool" where
  "isAlphaNum c \<longleftrightarrow>
     (CHR ''a'' \<le> c \<and> c \<le> CHR ''z'') \<or> (CHR ''A'' \<le> c \<and> c \<le> CHR ''Z'') \<or>
     (CHR ''0'' \<le> c \<and> c \<le> CHR ''9'')"

text \<open>\<^verbatim>\<open>slug.replace(/[^a-z0-9]/gi, '_')\<close>: every other character becomes an underscore.\<close>

definition safeSlug :: "string \<Rightarrow> string" where
  "safeSlug slug = map (\<lambda>c. if isAlphaNum c then c else CHR ''_'') slug"

text \<open>
  \<^verbatim>\<open>browserName.replace(/\s+/g, '_')\<close>: every maximal run of white space becomes one
  underscore (the flag of the scan says that the character before was white space of a
  run already replaced). The white space is the part of \<^verbatim>\<open>\s\<close> among the 8-bit
  characters: space, tab, line feed, vertical tab, form feed, carriage return and the
  no-break space U+00A0.
\<close>

definition isSpace :: "char \<Rightarrow> bool" where
  "isSpace c \<longleftrightarrow> c = CHR '' '' \<or> (CHR 0x09 \<le> c \<and> c \<le> CHR 0x0D) \<or> c = CHR 0xA0"

fun replaceSpaceRunsFrom :: "bool \<Rightarrow> string \<Rightarrow> string" where
  "replaceSpaceRunsFrom inRun [] = []"
| "replaceSpaceRunsFrom inRun (c # rest) =
     (if isSpace c then
        (if inRun then replaceSpaceRunsFrom True rest
         else CHR ''_'' # replaceSpaceRunsFrom True rest)
      else c # replaceSpaceRunsFrom False rest)"

definition replaceSpaceRuns :: "string \<Rightarrow> string" where
  "replaceSpaceRuns browserName = replaceSpaceRunsFrom False browserName"

text \<open>
  \<^verbatim>\<open>sheetWriter(slug, data)\<close> of \<^verbatim>\<open>tfg.test.ts\<close> (the one of
  \<^verbatim>\<open>at-scale.test.ts\<close> is the same): the rows \<^verbatim>\<open>data\<close> go to
  \<^verbatim>\<open>path.join('spreadsheets', `${safeSlug}.xlsx`)\<close>. The name has no separator left,
  so the joined path is the directory, a slash and the name.
\<close>

definition tfgSheetWriter :: "string \<Rightarrow> DataRow list \<Rightarrow> string \<times> DataRow list" where
  "tfgSheetWriter slug data = (''spreadsheets/'' @ safeSlug slug @ ''.xlsx'', data)"

text \<open>
  The test body of \<^verbatim>\<open>tfg.test.ts\<close>: \<^verbatim>\<open>let sheetData: DataRow[] = []\<close> is inside the
  body. The project name is a parameter; \<^verbatim>\<open>testInfo.project.name || 'unknown'\<close>.
\<close>

definition tfgVisit :: "string \<Rightarrow> string \<Rightarrow> string \<Rightarrow> axeViolation list \<Rightarrow> visitResult" where
  "tfgVisit slug userAgent projectName violations =
     (let sheetData = pushRows slug userAgent violations [];
          browserName = (if projectName = [] then ''unknown'' else projectName)
      in \<lparr>accumulator = sheetData,
          written =
            (if length sheetData > 0 then
               (let filenameSlug = (if slug = [] then ''home'' else slug);
                    filenameSlug' =
                      (if filenameSlug = ''loc/warwick-pizza/'' then ''warwick-pizza''
                       else if filenameSlug = ''loc/catering-inquiry'' then ''catering-inquiry''
                       else filenameSlug)
                in [tfgSheetWriter (filenameSlug' @ ''_'' @ replaceSpaceRuns browserName) sheetData])
             else []),
          passed = (violations = [])\<rparr>)"

subsection \<open>at-scale.test.ts\<close>

text \<open>
  The test body of \<^verbatim>\<open>at-scale.test.ts\<close>. \<^verbatim>\<open>sheetData\<close> is module-level as in
  \<^verbatim>\<open>ada.test.ts\<close>. The writer is called inside the loop over the violations, after the
  nodes of each one are pushed; the loop variable \<^verbatim>\<open>slug\<close> is assigned inside the loop
  and the later rows and writes see the new value.
\<close>

definition atScaleStep ::
  "string \<Rightarrow> axeViolation \<Rightarrow> string \<times> DataRow list \<times> (string \<times> DataRow list) list \<Rightarrow>
   string \<times> DataRow list \<times> (string \<times> DataRow list) list" where
  "atScaleStep userAgent element = (\<lambda>(slug, sheetData, files).
     let sheetData' = fold (\<lambda>node acc. acc @ [dataRow slug userAgent element node])
                           (nodes element) sheetData;
         (slug1, files1) =
           (if slug = ''loc/warwick-pizza/''
            then (''warwick-pizza'', files @ [tfgSheetWriter ''warwick-pizza'' sheetData'])
            else (slug, files));
         (slug2, files2) =
           (if slug1 = ''loc/catering-inquiry''
            then (''catering-inquiry'', files1 @ [tfgSheetWriter ''catering-inquiry'' sheetData'])
            else (slug1, files1));
         files3 = (if slug2 \<noteq> [] then files2 @ [tfgSheetWriter slug2 sheetData'] else files2)
     in (slug2, sheetData', files3))"

definition atScaleVisit :: "string \<Rightarrow> string \<Rightarrow> axeViolation list \<Rightarrow> DataRow list \<Rightarrow> visitResult" where
  "atScaleVisit slug userAgent violations sheetData =
     (case fold (atScaleStep userAgent) violations (slug, sheetData, []) of
        (slug', sheetData', files) \<Rightarrow>
          \<lparr>accumulator = sheetData', written = files, passed = (violations = [])\<rparr>)"

subsection \<open>The worker that runs the test bodies\<close>

text \<open>
  The bodies are run by \<^verbatim>\<open>@playwright/test\<close>, which is a library and not code of the
  repository. This is the documented life of one of its worker processes: the worker
  loads the test file, which sets the module-level \<^verbatim>\<open>sheetData\<close> to \<^verbatim>\<open>[]\<close>, and runs
  test bodies one after the other; after a test that failed the worker is discarded, and
  the tests that remain are run by a new worker, which loads the file again. Workers that
  run side by side have each their own module. So a body starts from the empty array or
  from what the bodies that passed before it in the same worker left there. The function
  gives the results of a list of tests that is handed to a worker started for it.
\<close>

fun workerRun :: "('t \<Rightarrow> DataRow list \<Rightarrow> visitResult) \<Rightarrow> 't list \<Rightarrow> DataRow list \<Rightarrow> visitResult list" where
  "workerRun body [] sheetData = []"
| "workerRun body (t # rest) sheetData =
     (let r = body t sheetData in
      r # workerRun body rest (if passed r then accumulator r else []))"

text \<open>The tests of \<^verbatim>\<open>ada.test.ts\<close> and of \<^verbatim>\<open>at-scale.test.ts\<close>: slug, user agent
  and the violations that the scan of the page gives.\<close>

definition adaRun :: "(string \<times> string \<times> axeViolation list) list \<Rightarrow> visitResult list" where
  "adaRun tests =
     workerRun (\<lambda>(slug, userAgent, violations). adaVisit slug userAgent violations) tests []"

definition atScaleRun :: "(string \<times> string \<times> axeViolation list) list \<Rightarrow> visitResult list" where
  "atScaleRun tests =
     workerRun (\<lambda>(slug, userAgent, violations). atScaleVisit slug userAgent violations) tests []"

section \<open>combine-sheets.js: duplicate detection and removal\<close>

text \<open>
  Stage 2, the inner \<^verbatim>\<open>sheetData.forEach((innerElement, innerIndex) => ...)\<close>: the three
  nested \<^verbatim>\<open>if\<close>s, and \<^verbatim>\<open>indicesToDelete.push(innerIndex)\<close> as appending to the
  accumulator. \<^verbatim>\<open>===\<close> on two fields is equality of the \<open>option\<close> values: two absent
  fields are equal, an absent field and a string are not.
\<close>

definition innerLoop :: "DataRow list \<Rightarrow> nat \<Rightarrow> DataRow \<Rightarrow> nat list \<Rightarrow> nat list" where
  "innerLoop sheetData outerIndex outerElement indicesToDelete =
     fold (\<lambda>(innerIndex, innerElement) acc.
            if innerIndex > outerIndex then
              (if target outerElement = target innerElement then
                 (if failureSummary outerElement = failureSummary innerElement
                  then acc @ [innerIndex]
                  else acc)
               else acc)
            else acc)
          (enumerate 0 sheetData) indicesToDelete"

text \<open>The outer \<^verbatim>\<open>sheetData.forEach((outerElement, outerIndex) => ...)\<close>, from an empty
  \<^verbatim>\<open>indicesToDelete\<close>.\<close>

definition detectDuplicates :: "DataRow list \<Rightarrow> nat list" where
  "detectDuplicates sheetData =
     fold (\<lambda>(outerIndex, outerElement) acc. innerLoop sheetData outerIndex outerElement acc)
          (enumerate 0 sheetData) []"

text \<open>
  Substage 3A: \<^verbatim>\<open>indicesToDelete.filter\<close> with the \<^verbatim>\<open>seen\<close> set. The first
  occurrence of an index is kept and added to \<^verbatim>\<open>seen\<close>, a later one is filtered out.
\<close>

fun uniqueFilter :: "nat set \<Rightarrow> nat list \<Rightarrow> nat list" where
  "uniqueFilter seen [] = []"
| "uniqueFilter seen (element # rest) =
     (if element \<in> seen then uniqueFilter seen rest
      else element # uniqueFilter (insert element seen) rest)"

definition uniqueArray :: "nat list \<Rightarrow> nat list" where
  "uniqueArray indicesToDelete = uniqueFilter {} indicesToDelete"

text \<open>
  Substage 3B: \<^verbatim>\<open>sort((a, b) => b - a)\<close>, the numbers from highest to lowest. Equal
  numbers cannot be told apart, so the ascending sort reversed is that list.
\<close>

definition sortDescending :: "nat list \<Rightarrow> nat list" where
  "sortDescending indices = rev (sort indices)"

text \<open>
  \<^verbatim>\<open>sheetData.splice(element, 1)\<close>: the item at position \<open>element\<close> is removed; a
  position at or beyond the length removes nothing.
\<close>

definition splice1 :: "nat \<Rightarrow> 'a list \<Rightarrow> 'a list" where
  "splice1 element sheetData = take element sheetData @ drop (Suc element) sheetData"

text \<open>\<^verbatim>\<open>uniqueArray.forEach((element, index) => sheetData.splice(element, 1))\<close>.\<close>

definition executeDeletion :: "nat list \<Rightarrow> 'a list \<Rightarrow> 'a list" where
  "executeDeletion indices sheetData = fold splice1 indices sheetData"

text \<open>Stages 2 and 3 together: the sequence that stage 4 writes as the work list.\<close>

definition removeDuplicates :: "DataRow list \<Rightarrow> DataRow list" where
  "removeDuplicates sheetData =
     executeDeletion (sortDescending (uniqueArray (detectDuplicates sheetData))) sheetData"

section \<open>combine-sheets.js: the run\<close>

text \<open>
  \<^verbatim>\<open>path.extname\<close> is Node's library function. This is its documented result for the
  name of a directory entry (a name with no path separator): the part of the name from its
  last dot on, and the empty string when the name has no dot, when its only dot is its
  first character, or when the name is \<^verbatim>\<open>..\<close>.
\<close>

fun lastDot :: "string \<Rightarrow> nat option" where
  "lastDot [] = None"
| "lastDot (c # rest) =
     (case lastDot rest of
        Some i \<Rightarrow> Some (Suc i)
      | None \<Rightarrow> if c = CHR ''.'' then Some 0 else None)"

definition extname :: "string \<Rightarrow> string" where
  "extname file =
     (case lastDot file of
        None \<Rightarrow> []
      | Some startDot \<Rightarrow> if startDot = 0 \<or> file = ''..'' then [] else drop startDot file)"

text \<open>
  \<^verbatim>\<open>path.join(directoryPath, file)\<close> with \<^verbatim>\<open>directoryPath = './spreadsheets/'\<close>: for an
  entry name the normalised path is the directory, one slash and the name.
\<close>

definition joinDirectory :: "string \<Rightarrow> string" where
  "joinDirectory file = ''spreadsheets/'' @ file"

text \<open>
  The two ways the script can throw. \<open>ReadError\<close>: \<^verbatim>\<open>readFileSync\<close> or \<^verbatim>\<open>read\<close>
  throws on the file, with the message of the error. \<open>TypeError\<close>: a property of
  \<^verbatim>\<open>undefined\<close> is read.
\<close>

datatype error = ReadError string | TypeError

text \<open>
  The files on disk as the script sees them: for a path, either the rows that
  \<^verbatim>\<open>readFileSync\<close>, \<^verbatim>\<open>read\<close> and \<^verbatim>\<open>sheet_to_json\<close> of the first sheet give, or
  the failure. The script reads every file before it writes one it could read later, so
  the files are an input of the run.
\<close>

type_synonym fileSystem = "string \<Rightarrow> error + DataRow list"

text \<open>
  The variable \<^verbatim>\<open>lastIndex\<close> holds a number first and \<^verbatim>\<open>true\<close> later;
  \<^verbatim>\<open>===\<close> tells the two apart.
\<close>

datatype jsValue = Num int | Flag bool

text \<open>What the script prints with \<^verbatim>\<open>console.log\<close>, one constructor per call site.\<close>

datatype logLine =
    LogSheetData "DataRow list"
  | LogDuplicateFound nat
  | LogOuterElement DataRow
  | LogInnerElement DataRow
  | LogDeleting nat
  | LogComplete
  | LogMasterCount nat
  | LogWorkCount nat

text \<open>
  The module-level \<^verbatim>\<open>sheetData\<close>, the two files the script writes (\<open>None\<close>: not
  written by this run), the console, and the reasons of the promises that were rejected
  and that nothing handles, in the order of the rejections.
\<close>

record runState =
  sheetData :: "DataRow list"
  masterList :: "DataRow list option"
  workList :: "DataRow list option"
  console :: "logLine list"
  rejections :: "error list"

definition initialState :: runState where
  "initialState =
     \<lparr>sheetData = [], masterList = None, workList = None, console = [], rejections = []\<rparr>"

text \<open>
  \<^verbatim>\<open>appendDataToSheet(filePath, lastIndex)\<close>. The function is \<^verbatim>\<open>async\<close> and has no
  \<^verbatim>\<open>await\<close>: its body runs at the call, and a throw inside it is the rejection of the
  promise it returns (\<open>Inl\<close>), with \<^verbatim>\<open>sheetData\<close> as it was, since the reads come before
  the push. The master list is the sheet made of \<^verbatim>\<open>sheetData\<close> after the push.
\<close>

definition appendDataToSheet :: "fileSystem \<Rightarrow> string \<Rightarrow> jsValue \<Rightarrow> runState \<Rightarrow> error + runState" where
  "appendDataToSheet fs filePath lastIndex st =
     (case fs filePath of
        Inl e \<Rightarrow> Inl e
      | Inr currentData \<Rightarrow>
          (let st' = st\<lparr>sheetData := sheetData st @ currentData\<rparr> in
           Inr (if lastIndex = Flag True then st'\<lparr>masterList := Some (sheetData st')\<rparr>
                else st')))"

text \<open>
  One round of \<^verbatim>\<open>files.forEach((file, index) => ...)\<close>. The promise of
  \<^verbatim>\<open>appendDataToSheet\<close> is dropped: a rejected one leaves the state as it was, but
  for its reason, which no handler takes, and the loop goes on.
\<close>

definition fileStep :: "fileSystem \<Rightarrow> nat \<times> string \<Rightarrow> jsValue \<times> runState \<Rightarrow> jsValue \<times> runState" where
  "fileStep fs = (\<lambda>(index, file) (lastIndex, st).
     let lastIndex' = (if lastIndex = Num (int index) then Flag True else lastIndex) in
     if extname file = ''.xlsx'' then
       (case appendDataToSheet fs (joinDirectory file) lastIndex' st of
          Inl e \<Rightarrow> (lastIndex', st\<lparr>rejections := rejections st @ [e]\<rparr>)
        | Inr st' \<Rightarrow> (lastIndex', st'))
     else (lastIndex', st))"

text \<open>Stage 1, from \<^verbatim>\<open>let lastIndex = files.length - 1\<close> to the end of the loop.\<close>

definition stage1 :: "fileSystem \<Rightarrow> string list \<Rightarrow> runState \<Rightarrow> runState" where
  "stage1 fs files st =
     snd (fold (fileStep fs) (enumerate 0 files) (Num (int (length files) - 1), st))"

text \<open>The lines that the two loops of stage 2 print, three for every index they push.\<close>

definition stage2Log :: "DataRow list \<Rightarrow> logLine list" where
  "stage2Log rows =
     concat (map (\<lambda>(outerIndex, outerElement).
       concat (map (\<lambda>(innerIndex, innerElement).
         if innerIndex > outerIndex \<and> target outerElement = target innerElement
            \<and> failureSummary outerElement = failureSummary innerElement
         then [LogDuplicateFound innerIndex, LogOuterElement outerElement,
               LogInnerElement innerElement]
         else []) (enumerate 0 rows))) (enumerate 0 rows))"

text \<open>
  The callback of \<^verbatim>\<open>fs.readdir\<close>. Its first statement reads \<^verbatim>\<open>files.length\<close>, before
  \<^verbatim>\<open>err\<close> is looked at: when the listing fails \<^verbatim>\<open>files\<close> is \<^verbatim>\<open>undefined\<close> and the
  callback throws there. Otherwise the four stages run to the end; both counts of the last
  two lines are the length of \<^verbatim>\<open>sheetData\<close> after the removal.
\<close>

definition combineSheets :: "error + string list \<Rightarrow> fileSystem \<Rightarrow> error + runState" where
  "combineSheets listing fs =
     (case listing of
        Inl err \<Rightarrow> Inl TypeError
      | Inr files \<Rightarrow>
          (let st1 = stage1 fs files initialState;
               loaded = sheetData st1;
               reduced = removeDuplicates loaded
           in Inr (st1\<lparr>sheetData := reduced,
                       workList := Some reduced,
                       console := console st1 @ [LogSheetData loaded] @ stage2Log loaded
                         @ map LogDeleting (sortDescending (uniqueArray (detectDuplicates loaded)))
                         @ [LogComplete, LogMasterCount (length reduced),
                            LogWorkCount (length reduced)]\<rparr>)))"

text \<open>
  The process that runs the script. What it does with an error that nothing catches is
  the documented behaviour of Node (version 15 and later), not code of the repository: an
  exception thrown by the callback, or the first rejection without a handler once the
  callback has returned, is printed on the standard error stream and ends the process with
  exit code 1. Without either the process ends with exit code 0. \<open>outputs\<close> is the state
  at the end of the callback, with the files it wrote; \<open>None\<close> when the callback threw.
\<close>

record processResult =
  outputs :: "runState option"
  stderr :: "error list"
  exitCode :: nat

definition nodeProcess :: "error + string list \<Rightarrow> fileSystem \<Rightarrow> processResult" where
  "nodeProcess listing fs =
     (case combineSheets listing fs of
        Inl e \<Rightarrow> \<lparr>outputs = None, stderr = [e], exitCode = 1\<rparr>
      | Inr st \<Rightarrow>
          (case rejections st of
             [] \<Rightarrow> \<lparr>outputs = Some st, stderr = [], exitCode = 0\<rparr>
           | e # later \<Rightarrow> \<lparr>outputs = Some st, stderr = [e], exitCode = 1\<rparr>))"

section \<open>Notions of the specification\<close>

text \<open>
  The equivalence of the specification: two records are duplicates of each other when
  their \<^verbatim>\<open>target\<close> fields are equal and their \<^verbatim>\<open>failureSummary\<close> fields are equal.
\<close>

definition sameViolation :: "DataRow \<Rightarrow> DataRow \<Rightarrow> bool" where
  "sameViolation a b \<longleftrightarrow> target a = target b \<and> failureSummary a = failureSummary b"

text \<open>The de-duplication key of a record.\<close>

definition dedupKey :: "DataRow \<Rightarrow> string option \<times> string option" where
  "dedupKey r = (target r, failureSummary r)"

text \<open>The positions of a sequence whose record has no duplicate at an earlier position.\<close>

definition firstOccurrences :: "DataRow list \<Rightarrow> nat set" where
  "firstOccurrences xs = {i. \<forall>j<i. \<not> sameViolation (xs ! j) (xs ! i)}"

text \<open>
  What a directory entry adds to the working sequence: its rows when its extension is
  \<^verbatim>\<open>.xlsx\<close> and it can be read, nothing otherwise.
\<close>

definition loadRows :: "fileSystem \<Rightarrow> string \<Rightarrow> DataRow list" where
  "loadRows fs file =
     (if extname file = ''.xlsx''
      then (case fs (joinDirectory file) of Inl e \<Rightarrow> [] | Inr rows \<Rightarrow> rows)
      else [])"

text \<open>The rejection that a directory entry causes: the error of its read, if it is read.\<close>

definition readFailure :: "fileSystem \<Rightarrow> string \<Rightarrow> error list" where
  "readFailure fs file =
     (if extname file = ''.xlsx''
      then (case fs (joinDirectory file) of Inl e \<Rightarrow> [e] | Inr rows \<Rightarrow> [])
      else [])"

definition loadable :: "fileSystem \<Rightarrow> string \<Rightarrow> bool" where
  "loadable fs file \<longleftrightarrow>
     extname file = ''.xlsx'' \<and>
     (case fs (joinDirectory file) of Inl e \<Rightarrow> False | Inr rows \<Rightarrow> True)"

text \<open>A name that matches \<^verbatim>\<open>^[A-Za-z0-9_]+$\<close>.\<close>

definition stemOk :: "string \<Rightarrow> bool" where
  "stemOk stem \<longleftrightarrow> stem \<noteq> [] \<and> list_all (\<lambda>c. isAlphaNum c \<or> c = CHR ''_'') stem"

text \<open>
  The stem of a file written by a suite: the path without the directory
  \<^verbatim>\<open>spreadsheets/\<close> in front and without the extension \<^verbatim>\<open>.xlsx\<close> at the end.
\<close>

definition fileStem :: "string \<Rightarrow> string" where
  "fileStem path = drop (length ''spreadsheets/'') (take (length path - length ''.xlsx'') path)"

subsection \<open>Example data\<close>

definition exampleRow :: "string \<Rightarrow> string option \<Rightarrow> string option \<Rightarrow> DataRow" where
  "exampleRow p t s =
     \<lparr>page = p, device = ''Mozilla/5.0'', id' = ''image-alt'', impact = Some ''critical'',
      tags = ''cat.text-alternatives, wcag2a'', description = ''Images need alternate text'',
      help' = ''Images must have alternate text'', helpUrl = ''https://dequeuniversity.com'',
      html = ''<img>'', target = t, failureSummary = s\<rparr>"

definition exampleViolation :: "string \<Rightarrow> axeViolation" where
  "exampleViolation selector =
     \<lparr>violationId = ''image-alt'', violationImpact = Some ''critical'',
      violationTags = [''cat.text-alternatives'', ''wcag2a''],
      violationDescription = ''Images need alternate text'',
      violationHelp = ''Images must have alternate text'',
      violationHelpUrl = ''https://dequeuniversity.com'',
      nodes = [\<lparr>nodeHtml = ''<img>'', nodeTarget = [selector],
                nodeFailureSummary = Some ''Fix any of the following''\<rparr>]\<rparr>"

text \<open>A directory of three result files, the second of which cannot be read.\<close>

definition exampleFiles :: fileSystem where
  "exampleFiles path =
     (if path = ''spreadsheets/home.xlsx''
        then Inr [exampleRow ''home'' (Some ''img'') (Some ''Fix any of the following'')]
      else if path = ''spreadsheets/contact.xlsx''
        then Inr [exampleRow ''contact'' (Some ''img'') (Some ''Fix any of the following''),
                  exampleRow ''contact'' (Some ''a'') None]
      else if path = ''spreadsheets/master-list.xlsx''
        then Inr [exampleRow ''studio'' (Some ''h1'') None]
      else if path = ''spreadsheets/work-list.xlsx''
        then Inr [exampleRow ''studio'' (Some ''h2'') None]
      else Inl (ReadError (''cannot read '' @ path)))"

text \<open>Three records: the second is a duplicate of the first, the third has another target.\<close>

definition rowA :: DataRow where
  "rowA = exampleRow ''home'' (Some ''img'') (Some ''s1'')"

definition rowB :: DataRow where
  "rowB = exampleRow ''contact'' (Some ''img'') (Some ''s1'')"

definition rowC :: DataRow where
  "rowC = exampleRow ''studio'' (Some ''a'') (Some ''s1'')"

text \<open>
  Five records: those at positions 1 and 3 are duplicates of the one at position 0 (the
  one at position 3 also of the one at position 1).
\<close>

definition fiveRows :: "DataRow list" where
  "fiveRows = [exampleRow ''p0'' (Some ''img'') None, exampleRow ''p1'' (Some ''img'') None,
               exampleRow ''p2'' (Some ''a'') None, exampleRow ''p3'' (Some ''img'') None,
               exampleRow ''p4'' (Some ''h1'') None]"

text \<open>The rows that two visits of the suites push for the example violation.\<close>

definition caseStudiesRow :: DataRow where
  "caseStudiesRow = dataRow ''case-studies'' ''Mozilla/5.0'' (exampleViolation ''img'')
               (hd (nodes (exampleViolation ''img'')))"


section \<open>The detection loops\<close>
lemma fold_push_fst:
  "fold (\<lambda>p acc. if Q p then acc @ [fst p] else acc) ps acc = acc @ map fst (filter Q ps)"
  by (induction ps arbitrary: acc) simp_all

lemma fold_append_concat:
  "fold (\<lambda>p acc. acc @ g p) ps acc = acc @ concat (map g ps)"
  by (induction ps arbitrary: acc) simp_all

lemma innerLoop_eq:
  "innerLoop xs oi oe acc =
     acc @ map fst (filter (\<lambda>p. oi < fst p \<and> sameViolation oe (snd p)) (enumerate 0 xs))"
proof -
  have "(\<lambda>(innerIndex, innerElement) acc.
            if innerIndex > oi then
              (if target oe = target innerElement then
                 (if failureSummary oe = failureSummary innerElement
                  then acc @ [innerIndex]
                  else acc)
               else acc)
            else acc) =
        (\<lambda>p acc. if oi < fst p \<and> sameViolation oe (snd p) then acc @ [fst p] else acc)"
    by (auto simp: fun_eq_iff sameViolation_def)
  then show ?thesis
    unfolding innerLoop_def by (simp only: fold_push_fst)
qed

lemma detectDuplicates_eq:
  "detectDuplicates xs =
     concat (map (\<lambda>q. map fst (filter (\<lambda>p. fst q < fst p \<and> sameViolation (snd q) (snd p))
                                  (enumerate 0 xs)))
                 (enumerate 0 xs))"
proof -
  have "(\<lambda>(outerIndex, outerElement) acc. innerLoop xs outerIndex outerElement acc) =
        (\<lambda>q acc. acc @ map fst (filter (\<lambda>p. fst q < fst p \<and> sameViolation (snd q) (snd p))
                                  (enumerate 0 xs)))"
    by (auto simp: fun_eq_iff innerLoop_eq)
  then show ?thesis
    unfolding detectDuplicates_def by (simp only: fold_append_concat append_Nil)
qed

lemma set_detectDuplicates:
  "set (detectDuplicates xs) =
     {i. i < length xs \<and> (\<exists>j<i. sameViolation (xs ! j) (xs ! i))}"
proof (rule set_eqI)
  fix i
  have "i \<in> set (detectDuplicates xs) \<longleftrightarrow>
        (\<exists>q\<in>set (enumerate 0 xs). \<exists>p\<in>set (enumerate 0 xs).
            i = fst p \<and> fst q < fst p \<and> sameViolation (snd q) (snd p))"
    unfolding detectDuplicates_eq by auto
  also have "\<dots> \<longleftrightarrow> (\<exists>j<length xs. i < length xs \<and> j < i \<and> sameViolation (xs ! j) (xs ! i))"
    by (simp add: in_set_enumerate_eq Bex_def) blast
  also have "\<dots> \<longleftrightarrow> i < length xs \<and> (\<exists>j<i. sameViolation (xs ! j) (xs ! i))"
    by (meson less_trans)
  finally show "i \<in> set (detectDuplicates xs) \<longleftrightarrow>
      i \<in> {i. i < length xs \<and> (\<exists>j<i. sameViolation (xs ! j) (xs ! i))}"
    by simp
qed

lemma set_uniqueFilter: "set (uniqueFilter seen xs) = set xs - seen"
  by (induction seen xs rule: uniqueFilter.induct) auto

lemma distinct_uniqueFilter: "distinct (uniqueFilter seen xs)"
  by (induction seen xs rule: uniqueFilter.induct) (auto simp: set_uniqueFilter)

lemma set_uniqueArray: "set (uniqueArray xs) = set xs"
  by (simp add: uniqueArray_def set_uniqueFilter)

lemma distinct_uniqueArray: "distinct (uniqueArray xs)"
  by (simp add: uniqueArray_def distinct_uniqueFilter)

lemma set_sortDescending: "set (sortDescending xs) = set xs"
  by (simp add: sortDescending_def)

lemma sorted_sortDescending: "sorted_wrt (\<ge>) (sortDescending xs)"
  by (simp add: sortDescending_def sorted_wrt_rev)

lemma strict_sortDescending: "distinct xs \<Longrightarrow> sorted_wrt (>) (sortDescending xs)"
proof -
  assume "distinct xs"
  then have "sorted_wrt (<) (sort xs)" by (simp add: strict_sorted_iff)
  then show ?thesis by (simp add: sortDescending_def sorted_wrt_rev)
qed

lemma length_splice1: "i < length xs \<Longrightarrow> length (splice1 i xs) = length xs - 1"
  by (simp add: splice1_def)

lemma splice1_append: "i < length ys \<Longrightarrow> splice1 i (ys @ zs) = splice1 i ys @ zs"
  by (simp add: splice1_def)

lemma executeDeletion_append:
  "sorted_wrt (>) ds \<Longrightarrow> \<forall>i\<in>set ds. i < length ys \<Longrightarrow>
     executeDeletion ds (ys @ zs) = executeDeletion ds ys @ zs"
proof (induction ds arbitrary: ys)
  case Nil
  then show ?case by (simp add: executeDeletion_def)
next
  case (Cons d ds)
  have d: "d < length ys" using Cons.prems by simp
  have "\<forall>i\<in>set ds. i < length (splice1 d ys)"
    using Cons.prems d by (auto simp: length_splice1)
  then have "executeDeletion ds (splice1 d ys @ zs) = executeDeletion ds (splice1 d ys) @ zs"
    using Cons.IH Cons.prems by simp
  then show ?case using d by (simp add: executeDeletion_def splice1_append)
qed

lemma nths_cong_less: "(\<And>i. i < length xs \<Longrightarrow> i \<in> A \<longleftrightarrow> i \<in> B) \<Longrightarrow> nths xs A = nths xs B"
  unfolding nths_def
  by (rule arg_cong[where f="map fst"], rule filter_cong) (auto simp: set_zip)

lemma executeDeletion_nths:
  "sorted_wrt (>) ds \<Longrightarrow> \<forall>i\<in>set ds. i < length xs \<Longrightarrow>
     executeDeletion ds xs = nths xs (- set ds)"
proof (induction ds arbitrary: xs)
  case Nil
  then show ?case by (simp add: executeDeletion_def nths_all)
next
  case (Cons d ds)
  have d: "d < length xs" and lt: "\<forall>i\<in>set ds. i < d" and s: "sorted_wrt (>) ds"
    using Cons.prems by auto
  have "executeDeletion (d # ds) xs = executeDeletion ds (take d xs @ drop (Suc d) xs)"
    by (simp add: executeDeletion_def splice1_def)
  also have "\<dots> = executeDeletion ds (take d xs) @ drop (Suc d) xs"
    using s lt d by (intro executeDeletion_append) auto
  also have "executeDeletion ds (take d xs) = nths (take d xs) (- set ds)"
    using s lt d by (intro Cons.IH) auto
  finally have l: "executeDeletion (d # ds) xs = nths (take d xs) (- set ds) @ drop (Suc d) xs" .
  have xs: "xs = take d xs @ (xs ! d # drop (Suc d) xs)"
    using d by (simp add: id_take_nth_drop[symmetric])
  have "nths xs (- set (d # ds)) =
        nths (take d xs) (- set (d # ds)) @ nths (xs ! d # drop (Suc d) xs) {j. j + d \<in> - set (d # ds)}"
    using nths_append[of "take d xs" "xs ! d # drop (Suc d) xs" "- set (d # ds)"] xs d by simp
  also have "nths (take d xs) (- set (d # ds)) = nths (take d xs) (- set ds)"
    using d by (intro nths_cong_less) auto
  also have "nths (xs ! d # drop (Suc d) xs) {j. j + d \<in> - set (d # ds)} = drop (Suc d) xs"
  proof -
    have "{j. Suc j \<in> {j. j + d \<in> - set (d # ds)}} = UNIV" using lt by auto
    then show ?thesis by (simp add: nths_Cons nths_all)
  qed
  finally show ?case using l by simp
qed

section \<open>The result of the removal\<close>

lemma sameViolation_refl: "sameViolation a a"
  by (simp add: sameViolation_def)

lemma sameViolation_sym: "sameViolation a b \<Longrightarrow> sameViolation b a"
  by (simp add: sameViolation_def)

lemma sameViolation_trans: "sameViolation a b \<Longrightarrow> sameViolation b c \<Longrightarrow> sameViolation a c"
  by (simp add: sameViolation_def)

lemma removeDuplicates_nths: "removeDuplicates xs = nths xs (firstOccurrences xs)"
proof -
  let ?ds = "sortDescending (uniqueArray (detectDuplicates xs))"
  have s: "set ?ds = set (detectDuplicates xs)"
    by (simp add: set_sortDescending set_uniqueArray)
  have "sorted_wrt (>) ?ds"
    by (simp add: strict_sortDescending distinct_uniqueArray)
  moreover have "\<forall>i\<in>set ?ds. i < length xs"
    using s by (simp add: set_detectDuplicates)
  ultimately have "executeDeletion ?ds xs = nths xs (- set ?ds)"
    by (rule executeDeletion_nths)
  also have "\<dots> = nths xs (firstOccurrences xs)"
    by (rule nths_cong_less) (simp add: s set_detectDuplicates firstOccurrences_def)
  finally show ?thesis by (simp add: removeDuplicates_def)
qed

lemma nths_firstOccurrences_snoc:
  "nths (xs @ [x]) (firstOccurrences (xs @ [x])) =
     nths xs (firstOccurrences xs) @ (if \<exists>y\<in>set xs. sameViolation y x then [] else [x])"
proof -
  have a: "nths xs (firstOccurrences (xs @ [x])) = nths xs (firstOccurrences xs)"
    by (rule nths_cong_less) (simp add: firstOccurrences_def nth_append)
  have b: "length xs \<in> firstOccurrences (xs @ [x]) \<longleftrightarrow> \<not> (\<exists>y\<in>set xs. sameViolation y x)"
  proof -
    have "length xs \<in> firstOccurrences (xs @ [x]) \<longleftrightarrow> (\<forall>j<length xs. \<not> sameViolation (xs ! j) x)"
      by (simp add: firstOccurrences_def nth_append)
    also have "\<dots> \<longleftrightarrow> (\<forall>y\<in>set xs. \<not> sameViolation y x)"
      by (simp add: all_set_conv_all_nth)
    finally show ?thesis by simp
  qed
  show ?thesis
    using a b by (simp add: nths_append)
qed

lemma filter_class_empty:
  "\<not> (\<exists>y\<in>set xs. sameViolation r y) \<Longrightarrow> filter (sameViolation r) (nths xs A) = []"
  using set_nths_subset[of xs A] by (auto simp: filter_empty_conv)

lemma filter_class_first:
  "\<exists>y\<in>set xs. sameViolation r y \<Longrightarrow>
     filter (sameViolation r) (nths xs (firstOccurrences xs)) = [hd (filter (sameViolation r) xs)]"
proof (induction xs rule: rev_induct)
  case Nil
  then show ?case by simp
next
  case (snoc x xs)
  show ?case
  proof (cases "\<exists>y\<in>set xs. sameViolation r y")
    case True
    then have ne: "filter (sameViolation r) xs \<noteq> []" by (auto simp: filter_empty_conv)
    have "sameViolation r x \<Longrightarrow> \<exists>y\<in>set xs. sameViolation y x"
      using True sameViolation_sym sameViolation_trans by blast
    then show ?thesis
      using snoc.IH[OF True] ne by (auto simp: nths_firstOccurrences_snoc)
  next
    case False
    then have rx: "sameViolation r x" using snoc.prems by auto
    have "\<not> (\<exists>y\<in>set xs. sameViolation y x)"
      using False rx sameViolation_sym sameViolation_trans by blast
    moreover have "filter (sameViolation r) xs = []"
      using False by (auto simp: filter_empty_conv)
    ultimately show ?thesis
      using rx filter_class_empty[OF False] by (simp add: nths_firstOccurrences_snoc)
  qed
qed


lemma sameViolation_key: "sameViolation a b \<longleftrightarrow> dedupKey a = dedupKey b"
  by (auto simp: sameViolation_def dedupKey_def)

lemma distinct_keys_firstOccurrences: "distinct (map dedupKey (nths xs (firstOccurrences xs)))"
proof (induction xs rule: rev_induct)
  case Nil
  then show ?case by simp
next
  case (snoc x xs)
  have "\<not> (\<exists>y\<in>set xs. sameViolation y x) \<Longrightarrow>
        dedupKey x \<notin> dedupKey ` set (nths xs (firstOccurrences xs))"
    using set_nths_subset[of xs "firstOccurrences xs"] by (auto simp: sameViolation_key)
  then show ?case
    using snoc.IH by (simp add: nths_firstOccurrences_snoc)
qed

lemma distinct_keys_all_first:
  assumes "distinct (map dedupKey ys)"
  shows "\<forall>i<length ys. i \<in> firstOccurrences ys"
proof (intro allI impI)
  fix i assume i: "i < length ys"
  have "\<not> sameViolation (ys ! j) (ys ! i)" if "j < i" for j
  proof -
    have "map dedupKey ys ! j \<noteq> map dedupKey ys ! i"
      using assms i that nth_eq_iff_index_eq[of "map dedupKey ys" j i] by simp
    then show ?thesis using i that by (simp add: sameViolation_key)
  qed
  then show "i \<in> firstOccurrences ys" by (simp add: firstOccurrences_def)
qed

lemma detectDuplicates_distinct_keys:
  assumes "distinct (map dedupKey ys)"
  shows "detectDuplicates ys = []"
proof -
  have "set (detectDuplicates ys) = {}"
    using distinct_keys_all_first[OF assms]
    by (auto simp: set_detectDuplicates firstOccurrences_def)
  then show ?thesis by simp
qed

lemma removeDuplicates_distinct_keys:
  assumes "distinct (map dedupKey ys)"
  shows "removeDuplicates ys = ys"
  using distinct_keys_all_first[OF assms] by (simp add: removeDuplicates_nths nths_all)

section \<open>The result of stage 1\<close>

lemma fileStep_other:
  "int index \<noteq> L \<Longrightarrow>
     fileStep fs (index, file) (Num L, st) =
       (Num L, st\<lparr>sheetData := sheetData st @ loadRows fs file,
                   rejections := rejections st @ readFailure fs file\<rparr>)"
  by (auto simp: fileStep_def appendDataToSheet_def loadRows_def readFailure_def Let_def
           split: sum.splits)

lemma fileStep_last:
  "fileStep fs (index, file) (Num (int index), st) =
     (Flag True,
      if loadable fs file
      then st\<lparr>sheetData := sheetData st @ loadRows fs file,
               masterList := Some (sheetData st @ loadRows fs file)\<rparr>
      else st\<lparr>rejections := rejections st @ readFailure fs file\<rparr>)"
  by (auto simp: fileStep_def appendDataToSheet_def loadRows_def loadable_def readFailure_def
                 Let_def split: sum.splits)

lemma fold_fileStep_prefix:
  "\<forall>p\<in>set ps. int (fst p) \<noteq> L \<Longrightarrow>
     fold (fileStep fs) ps (Num L, st) =
       (Num L, st\<lparr>sheetData := sheetData st @ concat (map (\<lambda>p. loadRows fs (snd p)) ps),
                   rejections := rejections st @ concat (map (\<lambda>p. readFailure fs (snd p)) ps)\<rparr>)"
proof (induction ps arbitrary: st)
  case Nil
  then show ?case by simp
next
  case (Cons p ps)
  obtain i f where p: "p = (i, f)" by (cases p)
  show ?case using Cons by (simp add: p fileStep_other)
qed

lemma stage1_Nil: "stage1 fs [] st = st"
  by (simp add: stage1_def)

lemma stage1_snoc:
  "stage1 fs (files @ [file]) st =
     (let loaded = sheetData st @ concat (map (loadRows fs) files);
          failed = rejections st @ concat (map (readFailure fs) files) in
      if loadable fs file
      then st\<lparr>sheetData := loaded @ loadRows fs file,
               rejections := failed,
               masterList := Some (loaded @ loadRows fs file)\<rparr>
      else st\<lparr>sheetData := loaded, rejections := failed @ readFailure fs file\<rparr>)"
proof -
  have pre: "\<forall>p\<in>set (enumerate 0 files). int (fst p) \<noteq> int (length files)"
    by (auto simp: in_set_enumerate_eq)
  have m: "map (\<lambda>p. g (snd p)) (enumerate 0 files) = map g files" for g :: "string \<Rightarrow> 'c"
    using map_snd_enumerate[of 0 files] by (simp only: map_map[symmetric, unfolded comp_def])
  show ?thesis
    unfolding stage1_def
    using fold_fileStep_prefix[OF pre, of fs st]
    by (simp add: enumerate_append_eq fileStep_last m Let_def)
qed

lemma loadRows_not_loadable: "\<not> loadable fs file \<Longrightarrow> loadRows fs file = []"
  by (auto simp: loadable_def loadRows_def split: sum.splits)

lemma readFailure_loadable: "loadable fs file \<Longrightarrow> readFailure fs file = []"
  by (auto simp: loadable_def readFailure_def split: sum.splits)

lemma sheetData_stage1:
  "sheetData (stage1 fs files st) = sheetData st @ concat (map (loadRows fs) files)"
proof (cases files rule: rev_cases)
  case Nil
  then show ?thesis by (simp add: stage1_Nil)
next
  case (snoc bs l)
  then show ?thesis by (simp add: stage1_snoc Let_def loadRows_not_loadable)
qed

lemma rejections_stage1:
  "rejections (stage1 fs files st) = rejections st @ concat (map (readFailure fs) files)"
proof (cases files rule: rev_cases)
  case Nil
  then show ?thesis by (simp add: stage1_Nil)
next
  case (snoc bs l)
  then show ?thesis by (simp add: stage1_snoc Let_def readFailure_loadable)
qed

lemma masterList_stage1:
  "masterList (stage1 fs files st) =
     (if files \<noteq> [] \<and> loadable fs (last files)
      then Some (sheetData st @ concat (map (loadRows fs) files))
      else masterList st)"
proof (cases files rule: rev_cases)
  case Nil
  then show ?thesis by (simp add: stage1_Nil)
next
  case (snoc bs l)
  then show ?thesis by (simp add: stage1_snoc Let_def)
qed

lemma console_stage1: "console (stage1 fs files st) = console st"
  by (cases files rule: rev_cases) (simp_all add: stage1_Nil stage1_snoc Let_def)

lemma workList_stage1: "workList (stage1 fs files st) = workList st"
  by (cases files rule: rev_cases) (simp_all add: stage1_Nil stage1_snoc Let_def)

section \<open>Claims about the duplicate removal\<close>

lemmas removal_defs = removeDuplicates_def executeDeletion_def splice1_def sortDescending_def
  uniqueArray_def detectDuplicates_def innerLoop_def

text \<open>
  C1. For every input sequence the removal pass keeps, of the records with one
  (\<^verbatim>\<open>target\<close>, \<^verbatim>\<open>failureSummary\<close>) key, exactly the one at the smallest position:
  the output is the input restricted to the positions that have no duplicate before them;
  for every record of the input, the output holds one record of its class, the first of
  the class in the input; of a class of \<open>k\<close> records, \<open>k - 1\<close> are removed. In particular
  \<open>[A, B, C]\<close>, where \<open>B\<close> has the key of \<open>A\<close> and \<open>C\<close> has the summary of \<open>A\<close> and another
  target, becomes \<open>[A, C]\<close>.
\<close>

theorem removeDuplicates_keeps_first_of_each_key:
  "removeDuplicates xs = nths xs {i. \<forall>j<i. \<not> sameViolation (xs ! j) (xs ! i)}
   \<and> (\<forall>r\<in>set xs. filter (sameViolation r) (removeDuplicates xs) =
          [hd (filter (sameViolation r) xs)])
   \<and> (\<forall>r\<in>set xs. \<forall>k. length (filter (sameViolation r) xs) = k \<longrightarrow>
          length (filter (sameViolation r) xs)
            - length (filter (sameViolation r) (removeDuplicates xs)) = k - 1)
   \<and> (\<forall>a b c. target a = target b \<and> failureSummary a = failureSummary b \<and>
          failureSummary c = failureSummary a \<and> target c \<noteq> target a \<longrightarrow>
          removeDuplicates [a, b, c] = [a, c])"
proof (intro conjI ballI allI impI)
  show nths: "removeDuplicates xs = nths xs {i. \<forall>j<i. \<not> sameViolation (xs ! j) (xs ! i)}" for xs
    by (simp add: removeDuplicates_nths firstOccurrences_def)
  show first: "filter (sameViolation r) (removeDuplicates xs) = [hd (filter (sameViolation r) xs)]"
    if "r \<in> set xs" for r
  proof -
    have "\<exists>y\<in>set xs. sameViolation r y" using that sameViolation_refl by blast
    then show ?thesis by (simp add: removeDuplicates_nths filter_class_first)
  qed
  show "length (filter (sameViolation r) xs)
          - length (filter (sameViolation r) (removeDuplicates xs)) = k - 1"
    if "r \<in> set xs" and "length (filter (sameViolation r) xs) = k" for r k
    using first[OF that(1)] that(2) by simp
  show "removeDuplicates [a, b, c] = [a, c]"
    if "target a = target b \<and> failureSummary a = failureSummary b \<and>
        failureSummary c = failureSummary a \<and> target c \<noteq> target a" for a b c
  proof -
    have "{i. \<forall>j<i. \<not> sameViolation ([a, b, c] ! j) ([a, b, c] ! i)} \<inter> {..<3} = {0, 2}"
      using that by (auto simp: sameViolation_def less_Suc_eq nth_Cons' split: if_splits)
    then have "nths [a, b, c] {i. \<forall>j<i. \<not> sameViolation ([a, b, c] ! j) ([a, b, c] ! i)} =
               nths [a, b, c] {0, 2}"
      by (intro nths_cong_less) auto
    then show ?thesis by (simp add: nths[of "[a, b, c]"] nths_Cons)
  qed
qed

theorem removeDuplicates_keeps_first_of_each_key_witness:
  "target rowA = target rowB \<and> failureSummary rowA = failureSummary rowB
   \<and> failureSummary rowC = failureSummary rowA \<and> target rowC \<noteq> target rowA
   \<and> removeDuplicates [rowA, rowB, rowC] = [rowA, rowC]
   \<and> nths [rowA, rowB, rowC]
        {i. \<forall>j<i. \<not> sameViolation ([rowA, rowB, rowC] ! j) ([rowA, rowB, rowC] ! i)} =
       [rowA, rowC]
   \<and> filter (sameViolation rowB) (removeDuplicates [rowA, rowB, rowC]) = [rowA]"
proof -
  have h: "target rowA = target rowB \<and> failureSummary rowA = failureSummary rowB
     \<and> failureSummary rowC = failureSummary rowA \<and> target rowC \<noteq> target rowA"
    by (simp add: rowA_def rowB_def rowC_def exampleRow_def)
  note t = removeDuplicates_keeps_first_of_each_key[of "[rowA, rowB, rowC]"]
  have ex: "removeDuplicates [rowA, rowB, rowC] = [rowA, rowC]"
    using t[THEN conjunct2, THEN conjunct2, THEN conjunct2] h by blast
  have n: "nths [rowA, rowB, rowC]
        {i. \<forall>j<i. \<not> sameViolation ([rowA, rowB, rowC] ! j) ([rowA, rowB, rowC] ! i)} =
       [rowA, rowC]"
    using t[THEN conjunct1] ex by simp
  have "filter (sameViolation rowB) (removeDuplicates [rowA, rowB, rowC]) =
        [hd (filter (sameViolation rowB) [rowA, rowB, rowC])]"
    using t[THEN conjunct2, THEN conjunct1] by simp
  then have f: "filter (sameViolation rowB) (removeDuplicates [rowA, rowB, rowC]) = [rowA]"
    using h by (simp add: sameViolation_def)
  from h ex n f show ?thesis by blast
qed

text \<open>
  C2. The deletion is safe for the positions. The list that drives the deletion holds every
  marked position once (\<open>uniqueArray\<close>) and is strictly descending (\<open>sortDescending\<close>);
  deleting along it from any sequence that has all these positions leaves the elements at
  the other positions, in their order. The positions marked are positions of the sequence
  as it was before the first deletion, and the result of the pass is that sequence without
  them. So a sequence of five records of which exactly the positions 1 and 3 are marked
  becomes the records that were at positions 0, 2 and 4.
\<close>

theorem deletion_is_index_safe:
  "distinct (uniqueArray idxs) \<and> set (uniqueArray idxs) = set idxs
   \<and> sorted_wrt (>) (sortDescending (uniqueArray idxs))
   \<and> ((\<forall>i\<in>set idxs. i < length ys) \<longrightarrow>
         executeDeletion (sortDescending (uniqueArray idxs)) ys = nths ys {i. i \<notin> set idxs})
   \<and> (\<forall>i\<in>set (detectDuplicates xs). i < length xs)
   \<and> removeDuplicates xs = nths xs {i. i \<notin> set (detectDuplicates xs)}
   \<and> (length xs = 5 \<and> set (detectDuplicates xs) = {1, 3} \<longrightarrow>
         removeDuplicates xs = [xs ! 0, xs ! 2, xs ! 4])"
proof (intro conjI impI)
  show "distinct (uniqueArray idxs)" by (rule distinct_uniqueArray)
  show "set (uniqueArray idxs) = set idxs" by (rule set_uniqueArray)
  show "sorted_wrt (>) (sortDescending (uniqueArray idxs))"
    by (simp add: strict_sortDescending distinct_uniqueArray)
  show del: "executeDeletion (sortDescending (uniqueArray idxs)) ys = nths ys {i. i \<notin> set idxs}"
    if "\<forall>i\<in>set idxs. i < length ys" for idxs :: "nat list" and ys :: "'b list"
  proof -
    have "executeDeletion (sortDescending (uniqueArray idxs)) ys =
          nths ys (- set (sortDescending (uniqueArray idxs)))"
      using that
      by (intro executeDeletion_nths)
         (simp_all add: strict_sortDescending distinct_uniqueArray set_sortDescending set_uniqueArray)
    then show ?thesis
      by (simp add: set_sortDescending set_uniqueArray Compl_eq)
  qed
  show bound: "\<forall>i\<in>set (detectDuplicates xs). i < length xs" for xs
    by (simp add: set_detectDuplicates)
  show rd: "removeDuplicates xs = nths xs {i. i \<notin> set (detectDuplicates xs)}" for xs
    unfolding removeDuplicates_def by (rule del[OF bound])
  show "removeDuplicates xs = [xs ! 0, xs ! 2, xs ! 4]"
    if h: "length xs = 5 \<and> set (detectDuplicates xs) = {1, 3}"
  proof -
    obtain a b c d e where xs: "xs = [a, b, c, d, e]"
      using h by (auto simp: length_Suc_conv eval_nat_numeral)
    have "nths [a, b, c, d, e] {i. i \<notin> {1, 3::nat}} = [a, c, e]"
      by (simp add: nths_Cons)
    then show ?thesis using h rd[of xs] by (simp add: xs)
  qed
qed

theorem deletion_is_index_safe_witness:
  "detectDuplicates fiveRows = [1, 3, 3]
   \<and> uniqueArray [1, 3, 3] = [1, 3]
   \<and> sortDescending (uniqueArray [1, 3, 3]) = [3, 1]
   \<and> executeDeletion (sortDescending (uniqueArray [1, 3, 3])) ''abcde'' = ''ace''
   \<and> nths ''abcde'' {i. i \<notin> set [1, 3, 3::nat]} = ''ace''
   \<and> length fiveRows = 5 \<and> set (detectDuplicates fiveRows) = {1, 3}
   \<and> removeDuplicates fiveRows = [fiveRows ! 0, fiveRows ! 2, fiveRows ! 4]"
proof -
  note t = deletion_is_index_safe[of "[1, 3, 3]" "''abcde''" fiveRows]
  have d: "detectDuplicates fiveRows = [1, 3, 3]"
    by (simp add: detectDuplicates_def innerLoop_def fiveRows_def exampleRow_def)
  have u: "uniqueArray [1, 3, 3] = [1, 3]"
    by (simp add: uniqueArray_def)
  have s: "sortDescending (uniqueArray [1, 3, 3]) = [3, 1]"
    unfolding u by (simp add: sortDescending_def)
  have e: "executeDeletion (sortDescending (uniqueArray [1, 3, 3])) ''abcde'' = ''ace''"
    unfolding s by (simp add: executeDeletion_def splice1_def)
  have b: "\<forall>i\<in>set [1, 3, 3::nat]. i < length ''abcde''" by simp
  have n: "nths ''abcde'' {i. i \<notin> set [1, 3, 3::nat]} = ''ace''"
    using t[THEN conjunct2, THEN conjunct2, THEN conjunct2, THEN conjunct1] b e by simp
  have l: "length fiveRows = 5 \<and> set (detectDuplicates fiveRows) = {1, 3}"
    by (simp add: d) (simp add: fiveRows_def)
  have r: "removeDuplicates fiveRows = [fiveRows ! 0, fiveRows ! 2, fiveRows ! 4]"
    using t[THEN conjunct2, THEN conjunct2, THEN conjunct2, THEN conjunct2, THEN conjunct2,
            THEN conjunct2] l by blast
  from d u s e n l r show ?thesis by blast
qed

text \<open>
  C4. The pass is idempotent: on its own output the detection loops push no index, and the
  pass gives the output back unchanged.
\<close>

theorem removeDuplicates_idempotent:
  "detectDuplicates (removeDuplicates xs) = []
   \<and> removeDuplicates (removeDuplicates xs) = removeDuplicates xs"
  using distinct_keys_firstOccurrences[of xs]
  by (simp add: detectDuplicates_distinct_keys removeDuplicates_distinct_keys
           flip: removeDuplicates_nths)

theorem removeDuplicates_idempotent_witness:
  "removeDuplicates fiveRows = [fiveRows ! 0, fiveRows ! 2, fiveRows ! 4]
   \<and> detectDuplicates [fiveRows ! 0, fiveRows ! 2, fiveRows ! 4] = []
   \<and> removeDuplicates [fiveRows ! 0, fiveRows ! 2, fiveRows ! 4] =
       [fiveRows ! 0, fiveRows ! 2, fiveRows ! 4]"
proof -
  have r: "removeDuplicates fiveRows = [fiveRows ! 0, fiveRows ! 2, fiveRows ! 4]"
    by (simp add: removal_defs fiveRows_def exampleRow_def)
  show ?thesis
    using removeDuplicates_idempotent[of fiveRows] by (simp only: r simp_thms)
qed

text \<open>
  C5. A record without \<^verbatim>\<open>target\<close> or \<^verbatim>\<open>failureSummary\<close> is compared through the absent
  value, and the loops have no branch that fails on it. A position is marked exactly when
  an earlier record has an equal \<^verbatim>\<open>target\<close> and an equal \<^verbatim>\<open>failureSummary\<close>, where
  absent is equal to absent and to nothing else: of two records the second is marked
  exactly when both fields agree. Two records whose \<^verbatim>\<open>failureSummary\<close> is absent and
  whose targets are equal (both absent included) are duplicates, and the second is
  removed; a record with an absent field and one with a string there are not, and both
  stay. In any sequence the later one of a pair with absent summaries and equal targets is
  marked, so the pass removes a record.
\<close>

theorem absent_fields_are_equal:
  "(j \<in> set (detectDuplicates xs) \<longleftrightarrow>
      j < length xs \<and> (\<exists>i<j. target (xs ! i) = target (xs ! j)
                            \<and> failureSummary (xs ! i) = failureSummary (xs ! j)))
   \<and> detectDuplicates [a, b] =
       (if target a = target b \<and> failureSummary a = failureSummary b then [1] else [])
   \<and> (failureSummary a = None \<and> failureSummary b = None \<and> target a = target b \<longrightarrow>
      sameViolation a b \<and> detectDuplicates [a, b] = [1] \<and> removeDuplicates [a, b] = [a])
   \<and> (failureSummary a = None \<and> failureSummary b = Some s \<longrightarrow>
      \<not> sameViolation a b \<and> detectDuplicates [a, b] = [] \<and> removeDuplicates [a, b] = [a, b])
   \<and> (target a = None \<and> target b = Some t \<longrightarrow>
      \<not> sameViolation a b \<and> detectDuplicates [a, b] = [] \<and> removeDuplicates [a, b] = [a, b])
   \<and> (i < j \<and> j < length xs \<and> failureSummary (xs ! i) = None \<and> failureSummary (xs ! j) = None
        \<and> target (xs ! i) = target (xs ! j) \<longrightarrow>
      j \<in> set (detectDuplicates xs) \<and> length (removeDuplicates xs) < length xs)"
proof -
  have pair: "detectDuplicates [a, b] =
       (if target a = target b \<and> failureSummary a = failureSummary b then [1] else [])" for a b
    by (simp add: detectDuplicates_def innerLoop_def)
  have none: "removeDuplicates [a, b] = [a, b]" if "detectDuplicates [a, b] = []" for a b
    using that by (simp add: removeDuplicates_def uniqueArray_def sortDescending_def
          executeDeletion_def)
  have one: "removeDuplicates [a, b] = [a]" if "detectDuplicates [a, b] = [1]" for a b
    using that by (simp add: removeDuplicates_def uniqueArray_def sortDescending_def
          executeDeletion_def splice1_def)
  have c1: "j \<in> set (detectDuplicates xs) \<longleftrightarrow>
      j < length xs \<and> (\<exists>i<j. target (xs ! i) = target (xs ! j)
                            \<and> failureSummary (xs ! i) = failureSummary (xs ! j))"
    by (simp add: set_detectDuplicates sameViolation_def)
  have c3: "sameViolation a b \<and> detectDuplicates [a, b] = [1] \<and> removeDuplicates [a, b] = [a]"
    if "failureSummary a = None \<and> failureSummary b = None \<and> target a = target b"
    using that one[of a b] by (simp add: pair sameViolation_def)
  have c4: "\<not> sameViolation a b \<and> detectDuplicates [a, b] = [] \<and> removeDuplicates [a, b] = [a, b]"
    if "failureSummary a = None \<and> failureSummary b = Some s"
    using that none[of a b] by (simp add: pair sameViolation_def)
  have c5: "\<not> sameViolation a b \<and> detectDuplicates [a, b] = [] \<and> removeDuplicates [a, b] = [a, b]"
    if "target a = None \<and> target b = Some t"
    using that none[of a b] by (simp add: pair sameViolation_def)
  have c6: "j \<in> set (detectDuplicates xs) \<and> length (removeDuplicates xs) < length xs"
    if h: "i < j \<and> j < length xs \<and> failureSummary (xs ! i) = None
       \<and> failureSummary (xs ! j) = None \<and> target (xs ! i) = target (xs ! j)"
  proof -
    have j: "j \<in> set (detectDuplicates xs)"
      using h c1 by auto
    have "j \<notin> firstOccurrences xs"
      using j by (auto simp: set_detectDuplicates firstOccurrences_def)
    then have "{k. k < length xs \<and> k \<in> firstOccurrences xs} \<subset> {k. k < length xs}"
      using h by auto
    then have "card {k. k < length xs \<and> k \<in> firstOccurrences xs} < card {k. k < length xs}"
      by (intro psubset_card_mono) auto
    then have "length (removeDuplicates xs) < length xs"
      by (simp add: removeDuplicates_nths length_nths)
    then show ?thesis using j by simp
  qed
  from c1 pair c3 c4 c5 c6 show ?thesis by blast
qed

theorem absent_fields_are_equal_witness:
  "failureSummary (exampleRow ''home'' None None) = None
   \<and> failureSummary (exampleRow ''contact'' None None) = None
   \<and> target (exampleRow ''home'' None None) = target (exampleRow ''contact'' None None)
   \<and> detectDuplicates [exampleRow ''home'' None None, exampleRow ''contact'' None None] = [1]
   \<and> removeDuplicates [exampleRow ''home'' None None, exampleRow ''contact'' None None] =
       [exampleRow ''home'' None None]
   \<and> failureSummary (exampleRow ''contact'' None (Some ''s1'')) = Some ''s1''
   \<and> detectDuplicates [exampleRow ''home'' None None, exampleRow ''contact'' None (Some ''s1'')] = []
   \<and> removeDuplicates [exampleRow ''home'' None None, exampleRow ''contact'' None (Some ''s1'')] =
       [exampleRow ''home'' None None, exampleRow ''contact'' None (Some ''s1'')]
   \<and> target (exampleRow ''contact'' (Some ''img'') None) = Some ''img''
   \<and> detectDuplicates [exampleRow ''home'' None None, exampleRow ''contact'' (Some ''img'') None] = []"
proof -
  let ?a = "exampleRow ''home'' None None"
  have h: "failureSummary ?a = None
   \<and> failureSummary (exampleRow ''contact'' None None) = None
   \<and> target ?a = target (exampleRow ''contact'' None None)"
    by (simp add: exampleRow_def)
  have h2: "failureSummary ?a = None
   \<and> failureSummary (exampleRow ''contact'' None (Some ''s1'')) = Some ''s1''"
    by (simp add: exampleRow_def)
  have h3: "target ?a = None \<and> target (exampleRow ''contact'' (Some ''img'') None) = Some ''img''"
    by (simp add: exampleRow_def)
  have r1: "detectDuplicates [?a, exampleRow ''contact'' None None] = [1]
     \<and> removeDuplicates [?a, exampleRow ''contact'' None None] = [?a]"
    using absent_fields_are_equal[of _ _ ?a "exampleRow ''contact'' None None",
        THEN conjunct2, THEN conjunct2, THEN conjunct1] h
    by blast
  have r2: "detectDuplicates [?a, exampleRow ''contact'' None (Some ''s1'')] = []
     \<and> removeDuplicates [?a, exampleRow ''contact'' None (Some ''s1'')] =
         [?a, exampleRow ''contact'' None (Some ''s1'')]"
    using absent_fields_are_equal[of _ _ ?a "exampleRow ''contact'' None (Some ''s1'')" "''s1''",
        THEN conjunct2, THEN conjunct2, THEN conjunct2, THEN conjunct1] h2
    by blast
  have r3: "detectDuplicates [?a, exampleRow ''contact'' (Some ''img'') None] = []"
    using absent_fields_are_equal[of _ _ ?a "exampleRow ''contact'' (Some ''img'') None" _ "''img''",
        THEN conjunct2, THEN conjunct2, THEN conjunct2, THEN conjunct2, THEN conjunct1] h3
    by blast
  from h h2 h3 r1 r2 r3 show ?thesis by blast
qed

section \<open>The result of a run\<close>

lemma combineSheets_eq:
  "combineSheets (Inr files) fs =
     (let loaded = concat (map (loadRows fs) files); reduced = removeDuplicates loaded in
      Inr \<lparr>sheetData = reduced,
           masterList = (if files \<noteq> [] \<and> loadable fs (last files) then Some loaded else None),
           workList = Some reduced,
           console = [LogSheetData loaded] @ stage2Log loaded
             @ map LogDeleting (sortDescending (uniqueArray (detectDuplicates loaded)))
             @ [LogComplete, LogMasterCount (length reduced), LogWorkCount (length reduced)],
           rejections = concat (map (readFailure fs) files)\<rparr>)"
proof (cases files rule: rev_cases)
  case Nil
  then show ?thesis
    by (simp add: combineSheets_def stage1_Nil initialState_def Let_def)
next
  case (snoc bs l)
  then show ?thesis
    by (simp add: combineSheets_def stage1_snoc initialState_def Let_def loadRows_not_loadable
          readFailure_loadable)
qed

lemma extname_xlsx_examples:
  "extname ''home.xlsx'' = ''.xlsx''" "extname ''contact.xlsx'' = ''.xlsx''"
  "extname ''studio.xlsx'' = ''.xlsx''" "extname ''careers.xlsx'' = ''.xlsx''"
  "extname ''master-list.xlsx'' = ''.xlsx''" "extname ''work-list.xlsx'' = ''.xlsx''"
  "extname ''notes.txt'' = ''.txt''"
  by (simp_all add: extname_def)

lemma concat_loadRows_filter:
  "concat (map (loadRows fs) files) =
     concat (map (\<lambda>file. case fs (joinDirectory file) of Inl e \<Rightarrow> [] | Inr rows \<Rightarrow> rows)
                 (filter (\<lambda>file. extname file = ''.xlsx'') files))"
  by (induction files) (simp_all add: loadRows_def)

lemma combineSheets_Inr:
  "\<exists>st. combineSheets (Inr files) fs = Inr st
     \<and> rejections st = concat (map (readFailure fs) files)
     \<and> sheetData st = removeDuplicates (concat (map (loadRows fs) files))
     \<and> workList st = Some (removeDuplicates (concat (map (loadRows fs) files)))"
  by (simp add: combineSheets_eq Let_def)

lemma nodeProcess_eq:
  "nodeProcess (Inr files) fs =
     \<lparr>outputs = (case combineSheets (Inr files) fs of Inr st \<Rightarrow> Some st | Inl e \<Rightarrow> None),
      stderr = take 1 (concat (map (readFailure fs) files)),
      exitCode = (if concat (map (readFailure fs) files) = [] then 0 else 1)\<rparr>"
proof -
  define F where "F = concat (map (readFailure fs) files)"
  obtain st where st: "combineSheets (Inr files) fs = Inr st" and r: "rejections st = F"
    using combineSheets_Inr unfolding F_def by blast
  have "nodeProcess (Inr files) fs =
     \<lparr>outputs = Some st, stderr = take 1 F, exitCode = (if F = [] then 0 else 1)\<rparr>"
    by (cases F) (simp_all add: nodeProcess_def st r)
  then show ?thesis by (simp add: st F_def)
qed

section \<open>Claims about the run of combine-sheets.js\<close>

text \<open>
  C3. The master list is written inside \<^verbatim>\<open>appendDataToSheet\<close>, and only in the call
  for the last entry of the directory listing. For the listing \<open>home.xlsx\<close>, \<open>notes.txt\<close>
  the last entry is not a spreadsheet: the run writes the work list and no master list.
  With the two entries in the other order the master list is written, with the row that
  was loaded. For an empty listing the work list is written, empty, and no master list.
\<close>

theorem master_list_missing_when_last_entry_is_not_xlsx:
  "(case combineSheets (Inr [''home.xlsx'', ''notes.txt'']) exampleFiles of
      Inl e \<Rightarrow> False
    | Inr st \<Rightarrow> masterList st = None
        \<and> workList st = Some [exampleRow ''home'' (Some ''img'') (Some ''Fix any of the following'')])
   \<and> (case combineSheets (Inr [''notes.txt'', ''home.xlsx'']) exampleFiles of
      Inl e \<Rightarrow> False
    | Inr st \<Rightarrow> masterList st = Some [exampleRow ''home'' (Some ''img'') (Some ''Fix any of the following'')]
        \<and> workList st = Some [exampleRow ''home'' (Some ''img'') (Some ''Fix any of the following'')])
   \<and> (case combineSheets (Inr []) exampleFiles of
      Inl e \<Rightarrow> False
    | Inr st \<Rightarrow> masterList st = None \<and> workList st = Some [])"
  by (simp add: combineSheets_eq loadRows_def loadable_def extname_xlsx_examples joinDirectory_def
        exampleFiles_def removal_defs Let_def)

text \<open>
  C10. The loop loads every entry of the listing whose extension is \<^verbatim>\<open>.xlsx\<close>: the
  working sequence after stage 1 is the concatenation, in the order of the listing, of the
  rows of these entries (a file that cannot be read gives none). The names
  \<^verbatim>\<open>master-list.xlsx\<close> and \<^verbatim>\<open>work-list.xlsx\<close> have this extension, so when the
  directory holds the two files of an earlier run their rows are in the working sequence.
\<close>

theorem xlsx_filter_admits_own_outputs:
  "sheetData (stage1 fs files initialState) =
     concat (map (\<lambda>file. case fs (joinDirectory file) of Inl e \<Rightarrow> [] | Inr rows \<Rightarrow> rows)
                 (filter (\<lambda>file. extname file = ''.xlsx'') files))
   \<and> extname ''master-list.xlsx'' = ''.xlsx'' \<and> extname ''work-list.xlsx'' = ''.xlsx''
   \<and> (\<forall>file rows. file \<in> set files \<and> extname file = ''.xlsx'' \<and> fs (joinDirectory file) = Inr rows
         \<longrightarrow> set rows \<subseteq> set (sheetData (stage1 fs files initialState)))
   \<and> (\<forall>m w. ''master-list.xlsx'' \<in> set files \<and> ''work-list.xlsx'' \<in> set files
         \<and> fs ''spreadsheets/master-list.xlsx'' = Inr m \<and> fs ''spreadsheets/work-list.xlsx'' = Inr w
         \<longrightarrow> set m \<union> set w \<subseteq> set (sheetData (stage1 fs files initialState)))"
proof -
  have sd: "sheetData (stage1 fs files initialState) = concat (map (loadRows fs) files)"
    by (simp add: sheetData_stage1 initialState_def)
  have sub: "set rows \<subseteq> set (sheetData (stage1 fs files initialState))"
    if "f \<in> set files" "extname f = ''.xlsx''" "fs (joinDirectory f) = Inr rows"
    for f rows
  proof -
    have "loadRows fs f = rows" using that by (simp add: loadRows_def)
    then show ?thesis using that(1) by (auto simp: sd)
  qed
  have own: "set m \<union> set w \<subseteq> set (sheetData (stage1 fs files initialState))"
    if "''master-list.xlsx'' \<in> set files \<and> ''work-list.xlsx'' \<in> set files
         \<and> fs ''spreadsheets/master-list.xlsx'' = Inr m \<and> fs ''spreadsheets/work-list.xlsx'' = Inr w"
    for m w
    using that sub[of "''master-list.xlsx''" m] sub[of "''work-list.xlsx''" w]
    by (simp add: extname_xlsx_examples joinDirectory_def)
  show ?thesis
    using sub own by (simp add: sd concat_loadRows_filter extname_xlsx_examples) blast
qed

theorem xlsx_filter_admits_own_outputs_witness:
  "''master-list.xlsx'' \<in> set [''home.xlsx'', ''master-list.xlsx'', ''notes.txt'', ''work-list.xlsx'']
   \<and> ''work-list.xlsx'' \<in> set [''home.xlsx'', ''master-list.xlsx'', ''notes.txt'', ''work-list.xlsx'']
   \<and> exampleFiles ''spreadsheets/master-list.xlsx'' = Inr [exampleRow ''studio'' (Some ''h1'') None]
   \<and> exampleFiles ''spreadsheets/work-list.xlsx'' = Inr [exampleRow ''studio'' (Some ''h2'') None]
   \<and> set [exampleRow ''studio'' (Some ''h1'') None] \<union> set [exampleRow ''studio'' (Some ''h2'') None]
       \<subseteq> set (sheetData (stage1 exampleFiles
                   [''home.xlsx'', ''master-list.xlsx'', ''notes.txt'', ''work-list.xlsx''] initialState))
   \<and> sheetData (stage1 exampleFiles
         [''home.xlsx'', ''master-list.xlsx'', ''notes.txt'', ''work-list.xlsx''] initialState) =
       [exampleRow ''home'' (Some ''img'') (Some ''Fix any of the following''),
        exampleRow ''studio'' (Some ''h1'') None, exampleRow ''studio'' (Some ''h2'') None]"
proof -
  let ?files = "[''home.xlsx'', ''master-list.xlsx'', ''notes.txt'', ''work-list.xlsx'']"
  note t = xlsx_filter_admits_own_outputs[of exampleFiles ?files]
  have h: "''master-list.xlsx'' \<in> set ?files \<and> ''work-list.xlsx'' \<in> set ?files
     \<and> exampleFiles ''spreadsheets/master-list.xlsx'' = Inr [exampleRow ''studio'' (Some ''h1'') None]
     \<and> exampleFiles ''spreadsheets/work-list.xlsx'' = Inr [exampleRow ''studio'' (Some ''h2'') None]"
    by (simp add: exampleFiles_def)
  have s: "set [exampleRow ''studio'' (Some ''h1'') None] \<union> set [exampleRow ''studio'' (Some ''h2'') None]
       \<subseteq> set (sheetData (stage1 exampleFiles ?files initialState))"
    using t[THEN conjunct2, THEN conjunct2, THEN conjunct2, THEN conjunct2] h by blast
  have e: "sheetData (stage1 exampleFiles ?files initialState) =
       [exampleRow ''home'' (Some ''img'') (Some ''Fix any of the following''),
        exampleRow ''studio'' (Some ''h1'') None, exampleRow ''studio'' (Some ''h2'') None]"
    unfolding t[THEN conjunct1]
    by (simp add: extname_xlsx_examples joinDirectory_def exampleFiles_def)
  from h s e show ?thesis by blast
qed

text \<open>
  C9, as stated, fails. In a directory of four spreadsheets of which the second and the
  third cannot be read, the rows of the other two are loaded and the work list is written,
  but the process ends with exit code 1 although two files could be read, and the standard
  error stream holds the error of the second entry only: the failure of the third is
  reported nowhere. In a directory whose only spreadsheet cannot be read, the merge is not
  stopped: the script prints its last lines and writes an empty work list.
\<close>

theorem read_failure_ends_process_with_failure:
  "exitCode (nodeProcess (Inr [''home.xlsx'', ''studio.xlsx'', ''careers.xlsx'', ''contact.xlsx''])
      exampleFiles) = 1
   \<and> stderr (nodeProcess (Inr [''home.xlsx'', ''studio.xlsx'', ''careers.xlsx'', ''contact.xlsx''])
      exampleFiles) = [ReadError ''cannot read spreadsheets/studio.xlsx'']
   \<and> map_option workList
       (outputs (nodeProcess (Inr [''home.xlsx'', ''studio.xlsx'', ''careers.xlsx'', ''contact.xlsx''])
          exampleFiles)) =
       Some (Some [exampleRow ''home'' (Some ''img'') (Some ''Fix any of the following''),
                   exampleRow ''contact'' (Some ''a'') None])
   \<and> exampleFiles (joinDirectory ''careers.xlsx'') = Inl (ReadError ''cannot read spreadsheets/careers.xlsx'')
   \<and> nodeProcess (Inr [''studio.xlsx'']) exampleFiles =
       \<lparr>outputs = Some \<lparr>sheetData = [], masterList = None, workList = Some [],
                         console = [LogSheetData [], LogComplete, LogMasterCount 0, LogWorkCount 0],
                         rejections = [ReadError ''cannot read spreadsheets/studio.xlsx'']\<rparr>,
        stderr = [ReadError ''cannot read spreadsheets/studio.xlsx''],
        exitCode = 1\<rparr>"
  by (simp add: nodeProcess_eq combineSheets_eq loadRows_def readFailure_def loadable_def
        extname_xlsx_examples joinDirectory_def exampleFiles_def removal_defs stage2Log_def Let_def
        exampleRow_def)

text \<open>
  C9, amended. A read failure adds none of the rows of the file and does not stop the
  merge: the callback always runs to its end, and the state, the work list and the console
  are those of the rows of the entries that could be loaded, also when none could. The
  script does not handle the failure: the runtime prints the error of the first entry that
  could not be read, and the exit code is 1 when at least one entry could not be read and
  0 otherwise. An entry with the extension \<^verbatim>\<open>.xlsx\<close> that cannot be read adds no row and
  one rejection; the working sequence after stage 1 is the one of the listing without the
  entry, and the process ends with exit code 1.
\<close>

theorem read_failure_skips_that_file_only:
  "(\<exists>st. outputs (nodeProcess (Inr files) fs) = Some st
      \<and> sheetData st = removeDuplicates (concat (map (loadRows fs) files))
      \<and> workList st = Some (removeDuplicates (concat (map (loadRows fs) files)))
      \<and> console st = [LogSheetData (concat (map (loadRows fs) files))]
          @ stage2Log (concat (map (loadRows fs) files))
          @ map LogDeleting (sortDescending (uniqueArray
              (detectDuplicates (concat (map (loadRows fs) files)))))
          @ [LogComplete, LogMasterCount (length (removeDuplicates (concat (map (loadRows fs) files)))),
             LogWorkCount (length (removeDuplicates (concat (map (loadRows fs) files))))])
   \<and> stderr (nodeProcess (Inr files) fs) = take 1 (concat (map (readFailure fs) files))
   \<and> exitCode (nodeProcess (Inr files) fs) =
       (if concat (map (readFailure fs) files) = [] then 0 else 1)
   \<and> (extname file = ''.xlsx'' \<and> fs (joinDirectory file) = Inl e \<longrightarrow>
        loadRows fs file = [] \<and> readFailure fs file = [e]
        \<and> concat (map (loadRows fs) (before @ file # after)) =
            concat (map (loadRows fs) before) @ concat (map (loadRows fs) after)
        \<and> sheetData (stage1 fs (before @ file # after) initialState) =
            sheetData (stage1 fs (before @ after) initialState)
        \<and> exitCode (nodeProcess (Inr (before @ file # after)) fs) = 1)"
proof (intro conjI impI)
  show "\<exists>st. outputs (nodeProcess (Inr files) fs) = Some st
      \<and> sheetData st = removeDuplicates (concat (map (loadRows fs) files))
      \<and> workList st = Some (removeDuplicates (concat (map (loadRows fs) files)))
      \<and> console st = [LogSheetData (concat (map (loadRows fs) files))]
          @ stage2Log (concat (map (loadRows fs) files))
          @ map LogDeleting (sortDescending (uniqueArray
              (detectDuplicates (concat (map (loadRows fs) files)))))
          @ [LogComplete, LogMasterCount (length (removeDuplicates (concat (map (loadRows fs) files)))),
             LogWorkCount (length (removeDuplicates (concat (map (loadRows fs) files))))]"
    by (simp add: nodeProcess_eq combineSheets_eq Let_def)
  show "stderr (nodeProcess (Inr files) fs) = take 1 (concat (map (readFailure fs) files))"
    by (simp add: nodeProcess_eq)
  show "exitCode (nodeProcess (Inr files) fs) =
       (if concat (map (readFailure fs) files) = [] then 0 else 1)"
    by (simp only: nodeProcess_eq processResult.simps)
next
  assume h: "extname file = ''.xlsx'' \<and> fs (joinDirectory file) = Inl e"
  then show l: "loadRows fs file = []" by (simp add: loadRows_def)
  show r: "readFailure fs file = [e]" using h by (simp add: readFailure_def)
  show "concat (map (loadRows fs) (before @ file # after)) =
            concat (map (loadRows fs) before) @ concat (map (loadRows fs) after)"
    using l by simp
  then show "sheetData (stage1 fs (before @ file # after) initialState) =
            sheetData (stage1 fs (before @ after) initialState)"
    by (simp add: sheetData_stage1)
  have "concat (map (readFailure fs) (before @ file # after)) \<noteq> []"
    using r by simp
  then show "exitCode (nodeProcess (Inr (before @ file # after)) fs) = 1"
    by (simp only: nodeProcess_eq processResult.simps if_False)
qed

theorem read_failure_skips_that_file_only_witness:
  "extname ''studio.xlsx'' = ''.xlsx''
   \<and> exampleFiles (joinDirectory ''studio.xlsx'') = Inl (ReadError ''cannot read spreadsheets/studio.xlsx'')
   \<and> sheetData (stage1 exampleFiles [''home.xlsx'', ''studio.xlsx'', ''contact.xlsx''] initialState) =
       sheetData (stage1 exampleFiles [''home.xlsx'', ''contact.xlsx''] initialState)
   \<and> sheetData (stage1 exampleFiles [''home.xlsx'', ''contact.xlsx''] initialState) =
       [exampleRow ''home'' (Some ''img'') (Some ''Fix any of the following''),
        exampleRow ''contact'' (Some ''img'') (Some ''Fix any of the following''),
        exampleRow ''contact'' (Some ''a'') None]
   \<and> exitCode (nodeProcess (Inr [''home.xlsx'', ''studio.xlsx'', ''contact.xlsx'']) exampleFiles) = 1
   \<and> exitCode (nodeProcess (Inr [''home.xlsx'', ''contact.xlsx'']) exampleFiles) = 0"
proof -
  have h: "extname ''studio.xlsx'' = ''.xlsx''
     \<and> exampleFiles (joinDirectory ''studio.xlsx'') = Inl (ReadError ''cannot read spreadsheets/studio.xlsx'')"
    by (simp add: extname_xlsx_examples joinDirectory_def exampleFiles_def)
  note t = read_failure_skips_that_file_only[of _ exampleFiles "''studio.xlsx''"
        "ReadError ''cannot read spreadsheets/studio.xlsx''" "[''home.xlsx'']" "[''contact.xlsx'']"]
  have s: "sheetData (stage1 exampleFiles ([''home.xlsx''] @ ''studio.xlsx'' # [''contact.xlsx'']) initialState) =
       sheetData (stage1 exampleFiles ([''home.xlsx''] @ [''contact.xlsx'']) initialState)
     \<and> exitCode (nodeProcess (Inr ([''home.xlsx''] @ ''studio.xlsx'' # [''contact.xlsx''])) exampleFiles) = 1"
    using t[THEN conjunct2, THEN conjunct2, THEN conjunct2] h by blast
  have e: "sheetData (stage1 exampleFiles [''home.xlsx'', ''contact.xlsx''] initialState) =
       [exampleRow ''home'' (Some ''img'') (Some ''Fix any of the following''),
        exampleRow ''contact'' (Some ''img'') (Some ''Fix any of the following''),
        exampleRow ''contact'' (Some ''a'') None]"
    by (simp add: sheetData_stage1 initialState_def loadRows_def extname_xlsx_examples
          joinDirectory_def exampleFiles_def)
  have z: "exitCode (nodeProcess (Inr [''home.xlsx'', ''contact.xlsx'']) exampleFiles) = 0"
    using read_failure_skips_that_file_only[of "[''home.xlsx'', ''contact.xlsx'']" exampleFiles,
        THEN conjunct2, THEN conjunct2, THEN conjunct1]
    by (simp add: readFailure_def extname_xlsx_examples joinDirectory_def exampleFiles_def)
  from h s e z show ?thesis by simp
qed

section \<open>The files that a visit writes\<close>

lemmas visit_defs = adaVisit_def pushRows_def dataRow_def adaSheetWriter_def exampleViolation_def
  tfgVisit_def tfgSheetWriter_def atScaleVisit_def atScaleStep_def

lemma pushRows_append: "pushRows slug ua vs acc = acc @ pushRows slug ua vs []"
proof -
  have inner: "fold (\<lambda>node acc'. acc' @ [f node]) ns acc = acc @ map f ns" for f :: "axeNode \<Rightarrow> DataRow" and ns acc
    by (induction ns arbitrary: acc) simp_all
  have outer: "fold (\<lambda>element acc. acc @ g element) vs acc = acc @ concat (map g vs)"
    for g :: "axeViolation \<Rightarrow> DataRow list" and acc
    by (induction vs arbitrary: acc) simp_all
  show ?thesis
    unfolding pushRows_def inner by (simp add: outer)
qed


lemma adaVisit_accumulates:
  "accumulator (adaVisit slug ua vs acc) = acc @ pushRows slug ua vs []
   \<and> written (adaVisit slug ua vs acc) =
       (if acc @ pushRows slug ua vs [] = [] then []
        else [adaSheetWriter (if slug = [] then ''home'' else slug) (acc @ pushRows slug ua vs [])])"
  using pushRows_append[of slug ua vs acc] by (simp add: adaVisit_def Let_def)

lemma passed_adaVisit:
  "passed (adaVisit slug ua vs acc) \<Longrightarrow> accumulator (adaVisit slug ua vs acc) = acc"
  by (simp add: adaVisit_def Let_def pushRows_def)

lemma passed_atScaleVisit:
  "passed (atScaleVisit slug ua vs acc) \<Longrightarrow> accumulator (atScaleVisit slug ua vs acc) = acc"
  by (simp add: atScaleVisit_def split: prod.splits)

lemma workerRun_fresh:
  assumes "\<And>t acc. passed (body t acc) \<Longrightarrow> accumulator (body t acc) = acc"
  shows "workerRun body ts [] = map (\<lambda>t. body t []) ts"
proof (induction ts)
  case Nil
  then show ?case by simp
next
  case (Cons t ts)
  have "(if passed (body t []) then accumulator (body t []) else []) = []"
    using assms[of t "[]"] by simp
  then show ?case using Cons by (simp add: Let_def)
qed

lemma adaRun_fresh: "adaRun tests = map (\<lambda>(slug, ua, vs). adaVisit slug ua vs []) tests"
proof -
  let ?body = "\<lambda>(slug, userAgent, violations). adaVisit slug userAgent violations"
  have "workerRun ?body tests [] = map (\<lambda>t. ?body t []) tests"
    by (rule workerRun_fresh) (auto simp: passed_adaVisit)
  also have "\<dots> = map (\<lambda>(slug, ua, vs). adaVisit slug ua vs []) tests"
    by (rule map_cong) (auto split: prod.splits)
  finally show ?thesis by (simp add: adaRun_def)
qed

lemma atScaleRun_fresh:
  "atScaleRun tests = map (\<lambda>(slug, ua, vs). atScaleVisit slug ua vs []) tests"
proof -
  let ?body = "\<lambda>(slug, userAgent, violations). atScaleVisit slug userAgent violations"
  have "workerRun ?body tests [] = map (\<lambda>t. ?body t []) tests"
    by (rule workerRun_fresh) (auto simp: passed_atScaleVisit)
  also have "\<dots> = map (\<lambda>(slug, ua, vs). atScaleVisit slug ua vs []) tests"
    by (rule map_cong) (auto split: prod.splits)
  finally show ?thesis by (simp add: atScaleRun_def)
qed





lemma stemOk_safeSlug: "stemOk (safeSlug slug) \<longleftrightarrow> slug \<noteq> []"
  by (auto simp: stemOk_def safeSlug_def list_all_iff)

lemma fileStem_tfg: "fileStem (fst (tfgSheetWriter slug data)) = safeSlug slug"
  by (simp add: fileStem_def tfgSheetWriter_def)

lemma fileStem_ada: "fileStem (fst (adaSheetWriter slug data)) = slug"
  by (simp add: fileStem_def adaSheetWriter_def)

lemma tfg_stems_ok:
  "\<forall>w\<in>set (written (tfgVisit slug ua project vs)).
     stemOk (fileStem (fst w)) \<and> CHR ''/'' \<notin> set (fileStem (fst w))"
proof -
  have A: "stemOk (safeSlug (a @ ''_'' @ b))" for a b
    by (simp add: stemOk_safeSlug)
  have B: "CHR ''/'' \<notin> set (safeSlug n)" for n
    by (auto simp: safeSlug_def isAlphaNum_def)
  show ?thesis
    unfolding tfgVisit_def Let_def
    by (simp add: fileStem_tfg A B del: append.simps)
qed

section \<open>Claims about the test suites\<close>




text \<open>
  C7. A visit whose scan gives no violation writes no file and passes. In a worker every
  test of \<^verbatim>\<open>ada.test.ts\<close> and of \<^verbatim>\<open>at-scale.test.ts\<close> with no violation writes
  nothing, whatever the tests before it gave, and so does the body of \<^verbatim>\<open>tfg.test.ts\<close>.
  From the empty array the bodies of \<^verbatim>\<open>ada.test.ts\<close> and \<^verbatim>\<open>tfg.test.ts\<close> write nothing
  when the scan gives no row.
\<close>

theorem visit_without_violations_writes_no_file:
  "(\<forall>i<length tests. snd (snd (tests ! i)) = [] \<longrightarrow>
       written (adaRun tests ! i) = [] \<and> passed (adaRun tests ! i))
   \<and> (\<forall>i<length tests. snd (snd (tests ! i)) = [] \<longrightarrow>
       written (atScaleRun tests ! i) = [] \<and> passed (atScaleRun tests ! i))
   \<and> written (tfgVisit slug ua project []) = [] \<and> passed (tfgVisit slug ua project [])
   \<and> (pushRows slug ua vs [] = [] \<longrightarrow>
        written (adaVisit slug ua vs []) = [] \<and> written (tfgVisit slug ua project vs) = [])"
proof (intro conjI allI impI)
  fix i assume i: "i < length tests" and z: "snd (snd (tests ! i)) = []"
  obtain slug' ua' where t: "tests ! i = (slug', ua', [])"
    using z by (cases "tests ! i") auto
  have "adaRun tests ! i = adaVisit slug' ua' [] []"
    using i by (simp add: adaRun_fresh t)
  then show "written (adaRun tests ! i) = []" "passed (adaRun tests ! i)"
    by (simp_all add: adaVisit_def pushRows_def Let_def)
  have "atScaleRun tests ! i = atScaleVisit slug' ua' [] []"
    using i by (simp add: atScaleRun_fresh t)
  then show "written (atScaleRun tests ! i) = []" "passed (atScaleRun tests ! i)"
    by (simp_all add: atScaleVisit_def)
next
  show "written (tfgVisit slug ua project []) = []" "passed (tfgVisit slug ua project [])"
    by (simp_all add: tfgVisit_def pushRows_def Let_def)
next
  assume e: "pushRows slug ua vs [] = []"
  show "written (adaVisit slug ua vs []) = []"
    using e by (simp add: adaVisit_accumulates)
  show "written (tfgVisit slug ua project vs) = []"
    using e by (simp add: tfgVisit_def Let_def)
qed

theorem visit_without_violations_writes_no_file_witness:
  "(1::nat) < length [(''case-studies'', ''Mozilla/5.0'', [exampleViolation ''img'']),
                      (''contact'', ''Mozilla/5.0'', [])]
   \<and> snd (snd ([(''case-studies'', ''Mozilla/5.0'', [exampleViolation ''img'']),
                 (''contact'', ''Mozilla/5.0'', [])] ! 1)) = []
   \<and> written (adaRun [(''case-studies'', ''Mozilla/5.0'', [exampleViolation ''img'']),
                       (''contact'', ''Mozilla/5.0'', [])] ! 1) = []
   \<and> passed (adaRun [(''case-studies'', ''Mozilla/5.0'', [exampleViolation ''img'']),
                      (''contact'', ''Mozilla/5.0'', [])] ! 1)
   \<and> written (atScaleRun [(''case-studies'', ''Mozilla/5.0'', [exampleViolation ''img'']),
                           (''contact'', ''Mozilla/5.0'', [])] ! 1) = []
   \<and> pushRows ''contact'' ''Mozilla/5.0'' [] [] = []
   \<and> written (adaVisit ''contact'' ''Mozilla/5.0'' [] []) = []"
proof -
  let ?tests = "[(''case-studies'', ''Mozilla/5.0'', [exampleViolation ''img'']),
                 (''contact'', ''Mozilla/5.0'', [])]"
  note t = visit_without_violations_writes_no_file[of ?tests "''contact''" "''Mozilla/5.0''"
      "''chromium''" "[]"]
  have h: "(1::nat) < length ?tests \<and> snd (snd (?tests ! 1)) = []" by simp
  have a: "written (adaRun ?tests ! 1) = [] \<and> passed (adaRun ?tests ! 1)"
    using t[THEN conjunct1] h by blast
  have b: "written (atScaleRun ?tests ! 1) = []"
    using t[THEN conjunct2, THEN conjunct1] h by blast
  have p: "pushRows ''contact'' ''Mozilla/5.0'' [] [] = []" by (simp add: pushRows_def)
  have c: "written (adaVisit ''contact'' ''Mozilla/5.0'' [] []) = []"
    using t[THEN conjunct2, THEN conjunct2, THEN conjunct2, THEN conjunct2] p by blast
  from h a b p c show ?thesis by blast
qed

text \<open>
  C8. The writer of \<^verbatim>\<open>ada.test.ts\<close> uses the slug as it is. The visit of its slug
  \<open>case-studies\<close> writes \<open>spreadsheets/case-studies.xlsx\<close>, whose stem has a hyphen and
  does not match \<^verbatim>\<open>^[A-Za-z0-9_]+$\<close>; for \<open>case-studies/allianz-trade/\<close> its path keeps
  the slashes. The writer of \<^verbatim>\<open>tfg.test.ts\<close> gives the stem
  \<open>case_studies_allianz_trade_\<close>, which matches.
\<close>

theorem ada_writer_does_not_sanitize:
  "written (adaVisit ''case-studies'' ''Mozilla/5.0'' [exampleViolation ''img''] []) =
     [(''spreadsheets/case-studies.xlsx'', [caseStudiesRow])]
   \<and> fileStem ''spreadsheets/case-studies.xlsx'' = ''case-studies''
   \<and> \<not> stemOk (fileStem ''spreadsheets/case-studies.xlsx'')
   \<and> fst (adaSheetWriter ''case-studies/allianz-trade/'' []) =
       ''spreadsheets/case-studies/allianz-trade/.xlsx''
   \<and> CHR ''/'' \<in> set (fileStem (fst (adaSheetWriter ''case-studies/allianz-trade/'' [])))
   \<and> fileStem (fst (tfgSheetWriter ''case-studies/allianz-trade/'' [])) = ''case_studies_allianz_trade_''
   \<and> stemOk (fileStem (fst (tfgSheetWriter ''case-studies/allianz-trade/'' [])))"
  by (simp add: visit_defs caseStudiesRow_def Let_def fileStem_def stemOk_def isAlphaNum_def safeSlug_def)

end
